theory Spec2Isabelle
  imports Main "HOL-Library.AList"
begin

section \<open>The CloudServices token registry (cloud-services/cloudservices.ts)\<close>

subsection \<open>Data model\<close>

text \<open>
  \<^verbatim>\<open>export type TokenUrl = string | ( () => Promise<string> );\<close>
  A token URL is the key of a JavaScript \<^verbatim>\<open>Map\<close>, which compares keys with
  SameValueZero: strings by their characters, function objects by reference. A provider
  function is therefore represented by the reference of its function object, and equality
  of \<open>TokenUrl\<close> is exactly the key equality of the map.
\<close>

datatype TokenUrl = UrlString string | ProviderFn nat

text \<open>Token objects live in a heap and are handled by reference.\<close>

type_synonym ref = nat

datatype TokenState = CREATED | INITIALIZING | VALID | DESTROYED

record Token =
  endpointIdentity :: TokenUrl
  state :: TokenState
  tokenValue :: "string option"
  refreshing :: bool

datatype error = TokenNotRegistered | InitializationFailure | RefreshFailure

text \<open>How an awaited promise settles; the transport and the provider functions are outside
  the program, so the settlement is an input of the model.\<close>

datatype outcome = Resolved string | Rejected

text \<open>Invocations of Token methods made by the plugin, in program order. One \<open>TokenInit\<close> is
  one \<^verbatim>\<open>init()\<close> call, that is one request to the endpoint or one provider invocation.\<close>

datatype call = TokenInit ref | TokenDestroy ref

text \<open>\<^verbatim>\<open>interface CloudServicesConfig\<close>: four optional members.\<close>

record CloudServicesConfig =
  tokenUrl :: "TokenUrl option"
  uploadUrl :: "string option"
  webSocketUrl :: "string option"
  bundleVersion :: "string option"

text \<open>
  \<^verbatim>\<open>class CloudServices extends ContextPlugin implements CloudServicesConfig\<close> adds
  \<^verbatim>\<open>token: InitializedToken | null = null\<close> and
  \<^verbatim>\<open>_tokens = new Map<TokenUrl, InitializedToken>()\<close>. The map is an association list in
  insertion order, which is the order of \<^verbatim>\<open>Map.prototype.values()\<close>; \<^verbatim>\<open>set\<close> is
  \<^const>\<open>AList.update\<close> (replace in place, or append), \<^verbatim>\<open>get\<close> is \<^const>\<open>map_of\<close>.
\<close>

record CloudServices = CloudServicesConfig +
  token :: "ref option"
  tokens :: "(TokenUrl \<times> ref) list"

record World =
  plugin :: CloudServices
  heap :: "Token list"
  calls :: "call list"

definition newCloudServices :: CloudServices where
  "newCloudServices =
     \<lparr>tokenUrl = None, uploadUrl = None, webSocketUrl = None, bundleVersion = None,
      token = None, tokens = []\<rparr>"

definition newWorld :: World where
  "newWorld = \<lparr>plugin = newCloudServices, heap = [], calls = []\<rparr>"

subsection \<open>The Token class\<close>

text \<open>
  cloudservices.ts imports the Token class (token/token.ts) and obtains its instances from
  \<^verbatim>\<open>CloudServicesCore.createToken\<close> (cloudservicescore.ts); neither file is among the
  sources. The definitions of this subsection follow sections 4.2, 5 and 7 of the
  specification instead.
\<close>

text \<open>Modelled from the spec: the Token constructor (token/token.ts is missing). A new
  token is in state \<open>CREATED\<close>, bound to its endpoint identity, without a value.\<close>

definition Token_new :: "TokenUrl \<Rightarrow> Token" where
  "Token_new url =
     \<lparr>endpointIdentity = url, state = CREATED, tokenValue = None, refreshing = False\<rparr>"

text \<open>Modelled from the spec: \<^verbatim>\<open>Token.init()\<close> (token/token.ts is missing), up to its
  request: valid only from \<open>CREATED\<close>, it starts the asynchronous resolution.\<close>

definition Token_init :: "Token \<Rightarrow> Token" where
  "Token_init t = (if state t = CREATED then t\<lparr>state := INITIALIZING\<rparr> else t)"

text \<open>Modelled from the spec: \<^verbatim>\<open>Token.init()\<close> (token/token.ts is missing), when its
  request settles: on success the token becomes \<open>VALID\<close> with the credential, on failure it
  is left without a value; a settlement that arrives after \<^verbatim>\<open>destroy()\<close> is discarded.\<close>

definition Token_init_settle :: "outcome \<Rightarrow> Token \<Rightarrow> Token" where
  "Token_init_settle oc t =
     (case oc of
        Resolved v \<Rightarrow>
          (if state t = INITIALIZING then t\<lparr>state := VALID, tokenValue := Some v\<rparr> else t)
      | Rejected \<Rightarrow> t)"

text \<open>Modelled from the spec: the trigger of the internal refresh (token/token.ts is
  missing): only a \<open>VALID\<close> token refreshes, and a renewal in flight is not restarted.\<close>

definition Token_refresh :: "Token \<Rightarrow> Token" where
  "Token_refresh t =
     (if state t = VALID \<and> \<not> refreshing t then t\<lparr>refreshing := True\<rparr> else t)"

text \<open>Modelled from the spec: the settlement of a refresh (token/token.ts is missing). A
  new credential replaces the old one in one step; a failure is swallowed and the last
  value is kept; after \<^verbatim>\<open>destroy()\<close> the settlement is discarded. The first component
  is the error surfaced to the holders of the token.\<close>

definition Token_refresh_settle :: "outcome \<Rightarrow> Token \<Rightarrow> error option \<times> Token" where
  "Token_refresh_settle oc t =
     (if state t = VALID \<and> refreshing t then
        (case oc of
           Resolved v \<Rightarrow> (None, t\<lparr>tokenValue := Some v, refreshing := False\<rparr>)
         | Rejected \<Rightarrow> (None, t\<lparr>refreshing := False\<rparr>))
      else (None, t))"

text \<open>Modelled from the spec: \<^verbatim>\<open>Token.destroy()\<close> (token/token.ts is missing): from any
  state to \<open>DESTROYED\<close>, the value released, a pending refresh cancelled.\<close>

definition Token_destroy :: "Token \<Rightarrow> Token" where
  "Token_destroy t = t\<lparr>state := DESTROYED, tokenValue := None, refreshing := False\<rparr>"

text \<open>A method applied to the token object behind a reference.\<close>

definition onToken :: "(Token \<Rightarrow> Token) \<Rightarrow> ref \<Rightarrow> World \<Rightarrow> World" where
  "onToken f r w =
     (if r < length (heap w) then w\<lparr>heap := (heap w)[r := f (heap w ! r)]\<rparr> else w)"

text \<open>Modelled from the spec: \<^verbatim>\<open>CloudServicesCore.createToken( tokenUrl )\<close>
  (cloudservicescore.ts is missing) constructs a new Token object for the identity.\<close>

definition createToken :: "World \<Rightarrow> TokenUrl \<Rightarrow> ref \<times> World" where
  "createToken w url = (length (heap w), w\<lparr>heap := heap w @ [Token_new url]\<rparr>)"

text \<open>The calls \<^verbatim>\<open>token.init()\<close> and \<^verbatim>\<open>token.destroy()\<close> as the plugin makes them: the
  invocation is recorded and the method runs on the object.\<close>

definition Token_init_call :: "ref \<Rightarrow> World \<Rightarrow> World" where
  "Token_init_call r w = onToken Token_init r (w\<lparr>calls := calls w @ [TokenInit r]\<rparr>)"

definition Token_destroy_call :: "ref \<Rightarrow> World \<Rightarrow> World" where
  "Token_destroy_call r w = onToken Token_destroy r (w\<lparr>calls := calls w @ [TokenDestroy r]\<rparr>)"

subsection \<open>The plugin's methods\<close>

text \<open>
  \<^verbatim>\<open>getTokenFor\<close>: \<^verbatim>\<open>const token = this._tokens.get( tokenUrl ); if ( !token ) throw
  new CKEditorError( 'cloudservices-token-not-registered', this ); return token;\<close>
  A stored token is an object, hence truthy: the throw is taken exactly when the key is
  absent. The method writes nothing, so the world comes back as it was.
\<close>

definition getTokenFor :: "World \<Rightarrow> TokenUrl \<Rightarrow> (error + ref) \<times> World" where
  "getTokenFor w url =
     (case map_of (tokens (plugin w)) url of
        None \<Rightarrow> (Inl TokenNotRegistered, w)
      | Some t \<Rightarrow> (Inr t, w))"

text \<open>\<^verbatim>\<open>this._tokens.has( tokenUrl )\<close> and \<^verbatim>\<open>this._tokens.set( tokenUrl, token )\<close>.\<close>

definition has :: "World \<Rightarrow> TokenUrl \<Rightarrow> bool" where
  "has w url = (map_of (tokens (plugin w)) url \<noteq> None)"

definition set_token :: "TokenUrl \<Rightarrow> ref \<Rightarrow> World \<Rightarrow> World" where
  "set_token url r w =
     w\<lparr>plugin := (plugin w)\<lparr>tokens := AList.update url r (tokens (plugin w))\<rparr>\<rparr>"

text \<open>
  \<^verbatim>\<open>registerTokenUrl\<close> is an async function with one \<^verbatim>\<open>await\<close>. JavaScript runs it
  up to the \<^verbatim>\<open>await\<close> without interruption, suspends it, and runs the rest, again without
  interruption, once the awaited promise has settled; other calls may run in between.
  \<open>registerTokenUrl_call\<close> is the part before the \<^verbatim>\<open>await\<close>: it either finishes with a
  result (the identity is already a key) or suspends on the \<^verbatim>\<open>init()\<close> of a new token.
  \<open>registerTokenUrl_resume\<close> is the part after it.
\<close>

datatype 'a suspension = Done 'a | Await ref

definition registerTokenUrl_call ::
  "World \<Rightarrow> TokenUrl \<Rightarrow> (error + ref) suspension \<times> World" where
  "registerTokenUrl_call w url =
     (if has w url then
        (case getTokenFor w url of (res, w1) \<Rightarrow> (Done res, w1))
      else
        (case createToken w url of (r, w1) \<Rightarrow> (Await r, Token_init_call r w1)))"

definition registerTokenUrl_resume ::
  "World \<Rightarrow> TokenUrl \<Rightarrow> ref \<Rightarrow> outcome \<Rightarrow> (error + ref) \<times> World" where
  "registerTokenUrl_resume w url r oc =
     (case oc of
        Rejected \<Rightarrow> (Inl InitializationFailure, onToken (Token_init_settle oc) r w)
      | Resolved v \<Rightarrow> (Inr r, set_token url r (onToken (Token_init_settle oc) r w)))"

text \<open>A call that nothing interleaves with: the continuation runs right after the call.\<close>

definition registerTokenUrl :: "World \<Rightarrow> TokenUrl \<Rightarrow> outcome \<Rightarrow> (error + ref) \<times> World" where
  "registerTokenUrl w url oc =
     (case registerTokenUrl_call w url of
        (Done res, w1) \<Rightarrow> (res, w1)
      | (Await r, w1) \<Rightarrow> registerTokenUrl_resume w1 url r oc)"

text \<open>
  \<^verbatim>\<open>init\<close>: \<^verbatim>\<open>const options = config.get( 'cloudServices' ) || {}\<close>, then every entry of
  \<^verbatim>\<open>options\<close> is assigned to the member of the same name.
\<close>

definition assignOptions :: "CloudServicesConfig \<Rightarrow> CloudServices \<Rightarrow> CloudServices" where
  "assignOptions options cs =
     cs\<lparr>tokenUrl := (case tokenUrl options of Some v \<Rightarrow> Some v | None \<Rightarrow> tokenUrl cs),
        uploadUrl := (case uploadUrl options of Some v \<Rightarrow> Some v | None \<Rightarrow> uploadUrl cs),
        webSocketUrl :=
          (case webSocketUrl options of Some v \<Rightarrow> Some v | None \<Rightarrow> webSocketUrl cs),
        bundleVersion :=
          (case bundleVersion options of Some v \<Rightarrow> Some v | None \<Rightarrow> bundleVersion cs)\<rparr>"

definition emptyOptions :: CloudServicesConfig where
  "emptyOptions =
     \<lparr>tokenUrl = None, uploadUrl = None, webSocketUrl = None, bundleVersion = None\<rparr>"

text \<open>\<^verbatim>\<open>!this.tokenUrl\<close> holds for \<^verbatim>\<open>undefined\<close> and for the empty string.\<close>

fun falsy :: "TokenUrl option \<Rightarrow> bool" where
  "falsy None = True"
| "falsy (Some (UrlString s)) = (s = [])"
| "falsy (Some (ProviderFn f)) = False"

text \<open>
  \<^verbatim>\<open>init\<close> is an async function too. Its \<^verbatim>\<open>await\<close> stands between
  \<^verbatim>\<open>createToken( this.tokenUrl ).init()\<close> and the two writes
  \<^verbatim>\<open>this.token = ...; this._tokens.set( this.tokenUrl, this.token )\<close>, so it is split
  like \<^verbatim>\<open>registerTokenUrl\<close>. \<open>init_call\<close> assigns the options and either finishes (no
  token URL) or suspends on the \<^verbatim>\<open>init()\<close> of the primary token; it makes no test of the
  map. \<open>init_resume\<close> is the part after the \<^verbatim>\<open>await\<close>; it reads \<^verbatim>\<open>this.tokenUrl\<close>
  again, as the source does. The member is written by the option loop only, and a
  configuration without the member leaves it alone, so a token URL that was there when
  \<^verbatim>\<open>init\<close> suspended is there when it resumes; the branch for an absent member
  makes the function total and no property below reaches it.
\<close>

definition init_call ::
  "World \<Rightarrow> CloudServicesConfig option \<Rightarrow> (error + unit) suspension \<times> World" where
  "init_call w config =
     (let options = (case config of Some c \<Rightarrow> c | None \<Rightarrow> emptyOptions);
          w1 = w\<lparr>plugin := assignOptions options (plugin w)\<rparr>
      in case tokenUrl (plugin w1) of
           None \<Rightarrow> (Done (Inr ()), w1\<lparr>plugin := (plugin w1)\<lparr>token := None\<rparr>\<rparr>)
         | Some url \<Rightarrow>
             if falsy (Some url)
             then (Done (Inr ()), w1\<lparr>plugin := (plugin w1)\<lparr>token := None\<rparr>\<rparr>)
             else (case createToken w1 url of (r, w2) \<Rightarrow> (Await r, Token_init_call r w2)))"

definition init_resume :: "World \<Rightarrow> ref \<Rightarrow> outcome \<Rightarrow> (error + unit) \<times> World" where
  "init_resume w r oc =
     (case oc of
        Rejected \<Rightarrow> (Inl InitializationFailure, onToken (Token_init_settle oc) r w)
      | Resolved v \<Rightarrow>
          (let w1 = onToken (Token_init_settle oc) r w;
               w2 = w1\<lparr>plugin := (plugin w1)\<lparr>token := Some r\<rparr>\<rparr>
           in (case tokenUrl (plugin w2) of
                 None \<Rightarrow> (Inr (), w2)
               | Some url \<Rightarrow> (Inr (), set_token url r w2))))"

text \<open>An \<^verbatim>\<open>init\<close> that nothing interleaves with.\<close>

definition init :: "World \<Rightarrow> CloudServicesConfig option \<Rightarrow> outcome \<Rightarrow> (error + unit) \<times> World" where
  "init w config oc =
     (case init_call w config of
        (Done res, w1) \<Rightarrow> (res, w1)
      | (Await r, w1) \<Rightarrow> init_resume w1 r oc)"

text \<open>Modelled from the spec: the inherited \<^verbatim>\<open>ContextPlugin.destroy\<close> (package
  ckeditor5-core) is missing. The teardown of the specification does nothing but destroy
  the tokens, and the base class cannot name the private members of this class: the
  inherited part leaves the modelled state as it is.\<close>

definition ContextPlugin_destroy :: "World \<Rightarrow> World" where
  "ContextPlugin_destroy w = w"

text \<open>\<^verbatim>\<open>destroy\<close>: \<^verbatim>\<open>super.destroy(); for ( const token of this._tokens.values() )
  token.destroy();\<close>\<close>

definition destroy :: "World \<Rightarrow> World" where
  "destroy w =
     (let w1 = ContextPlugin_destroy w
      in foldl (\<lambda>acc r. Token_destroy_call r acc) w1 (map snd (tokens (plugin w1))))"

subsection \<open>Sequences of calls\<close>

text \<open>
  The life of a plugin instance: the context constructs it and runs \<^verbatim>\<open>init\<close> once, then
  features call the public methods. In \<open>run\<close> every call finishes before the next one
  starts.
\<close>

datatype op = RegisterTokenUrl TokenUrl outcome | GetTokenFor TokenUrl | Destroy

datatype result = TokenResult "error + ref" | Void

fun exec :: "World \<Rightarrow> op \<Rightarrow> result \<times> World" where
  "exec w (RegisterTokenUrl url oc) =
     (case registerTokenUrl w url oc of (res, w1) \<Rightarrow> (TokenResult res, w1))"
| "exec w (GetTokenFor url) = (case getTokenFor w url of (res, w1) \<Rightarrow> (TokenResult res, w1))"
| "exec w Destroy = (Void, destroy w)"

fun run :: "World \<Rightarrow> op list \<Rightarrow> (op \<times> result) list \<times> World" where
  "run w [] = ([], w)"
| "run w (x # xs) =
     (case exec w x of
        (res, w1) \<Rightarrow> (case run w1 xs of (log, w2) \<Rightarrow> ((x, res) # log, w2)))"

definition started :: "CloudServicesConfig option \<Rightarrow> outcome \<Rightarrow> World" where
  "started config oc = snd (init newWorld config oc)"

subsection \<open>An invariant of call sequences\<close>

text \<open>
  Every token in the map is an allocated object, no token is the value of two keys, and the
  primary token, once set, is a value of the map.
\<close>

definition wellformed :: "World \<Rightarrow> bool" where
  "wellformed w \<longleftrightarrow>
     (\<forall>r \<in> set (map snd (tokens (plugin w))). r < length (heap w)) \<and>
     distinct (map snd (tokens (plugin w))) \<and>
     (case token (plugin w) of
        None \<Rightarrow> True
      | Some p \<Rightarrow> p \<in> set (map snd (tokens (plugin w))))"


section \<open>Properties\<close>

subsection \<open>Basic facts about the model\<close>

lemma plugin_onToken: "plugin (onToken f r w) = plugin w"
  by (simp add: onToken_def)

lemma calls_onToken: "calls (onToken f r w) = calls w"
  by (simp add: onToken_def)

lemma length_heap_onToken: "length (heap (onToken f r w)) = length (heap w)"
  by (simp add: onToken_def)

lemma nth_heap_onToken:
  "i < length (heap w) \<Longrightarrow>
   heap (onToken f r w) ! i = (if i = r then f (heap w ! i) else heap w ! i)"
  by (simp add: onToken_def)

lemma register_cached:
  "map_of (tokens (plugin w)) url = Some t \<Longrightarrow> registerTokenUrl w url oc = (Inr t, w)"
  by (simp add: registerTokenUrl_def registerTokenUrl_call_def has_def getTokenFor_def)

lemma register_fresh_rejected:
  "map_of (tokens (plugin w)) url = None \<Longrightarrow>
   fst (registerTokenUrl w url Rejected) = Inl InitializationFailure \<and>
   plugin (snd (registerTokenUrl w url Rejected)) = plugin w \<and>
   length (heap (snd (registerTokenUrl w url Rejected))) = Suc (length (heap w))"
  by (simp add: registerTokenUrl_def registerTokenUrl_call_def has_def createToken_def
      registerTokenUrl_resume_def Token_init_call_def plugin_onToken length_heap_onToken)

lemma register_fresh_resolved:
  "map_of (tokens (plugin w)) url = None \<Longrightarrow>
   fst (registerTokenUrl w url (Resolved v)) = Inr (length (heap w)) \<and>
   plugin (snd (registerTokenUrl w url (Resolved v))) =
     (plugin w)\<lparr>tokens := AList.update url (length (heap w)) (tokens (plugin w))\<rparr> \<and>
   length (heap (snd (registerTokenUrl w url (Resolved v)))) = Suc (length (heap w))"
  by (simp add: registerTokenUrl_def registerTokenUrl_call_def has_def createToken_def
      registerTokenUrl_resume_def Token_init_call_def set_token_def plugin_onToken
      length_heap_onToken)

subsection \<open>Facts about destroy\<close>

lemma Token_destroy_idem: "Token_destroy (Token_destroy t) = Token_destroy t"
  by (simp add: Token_destroy_def)

lemma plugin_Token_destroy_call: "plugin (Token_destroy_call r w) = plugin w"
  by (simp add: Token_destroy_call_def plugin_onToken)

lemma calls_Token_destroy_call: "calls (Token_destroy_call r w) = calls w @ [TokenDestroy r]"
  by (simp add: Token_destroy_call_def calls_onToken)

lemma length_heap_Token_destroy_call: "length (heap (Token_destroy_call r w)) = length (heap w)"
  by (simp add: Token_destroy_call_def length_heap_onToken)

lemma nth_heap_Token_destroy_call:
  "i < length (heap w) \<Longrightarrow>
   heap (Token_destroy_call r w) ! i = (if i = r then Token_destroy (heap w ! i) else heap w ! i)"
  by (simp add: Token_destroy_call_def nth_heap_onToken)

lemma plugin_destroy_loop:
  "plugin (foldl (\<lambda>acc r. Token_destroy_call r acc) w rs) = plugin w"
  by (induction rs arbitrary: w) (simp_all add: plugin_Token_destroy_call)

lemma calls_destroy_loop:
  "calls (foldl (\<lambda>acc r. Token_destroy_call r acc) w rs) = calls w @ map TokenDestroy rs"
  by (induction rs arbitrary: w) (simp_all add: calls_Token_destroy_call)

lemma length_heap_destroy_loop:
  "length (heap (foldl (\<lambda>acc r. Token_destroy_call r acc) w rs)) = length (heap w)"
  by (induction rs arbitrary: w) (simp_all add: length_heap_Token_destroy_call)

lemma nth_heap_destroy_loop:
  "i < length (heap w) \<Longrightarrow>
   heap (foldl (\<lambda>acc r. Token_destroy_call r acc) w rs) ! i =
     (if i \<in> set rs then Token_destroy (heap w ! i) else heap w ! i)"
proof (induction rs arbitrary: w)
  case Nil
  then show ?case by simp
next
  case (Cons r rs)
  have len: "i < length (heap (Token_destroy_call r w))"
    using Cons.prems by (simp add: length_heap_Token_destroy_call)
  show ?case
    using Cons.IH [OF len] Cons.prems
    by (simp add: nth_heap_Token_destroy_call Token_destroy_idem)
qed

lemma plugin_destroy: "plugin (destroy w) = plugin w"
  by (simp add: destroy_def ContextPlugin_destroy_def plugin_destroy_loop)

lemma calls_destroy:
  "calls (destroy w) = calls w @ map TokenDestroy (map snd (tokens (plugin w)))"
  by (simp add: destroy_def ContextPlugin_destroy_def calls_destroy_loop)

lemma length_heap_destroy: "length (heap (destroy w)) = length (heap w)"
  by (simp add: destroy_def ContextPlugin_destroy_def length_heap_destroy_loop)

lemma nth_heap_destroy:
  "i < length (heap w) \<Longrightarrow>
   heap (destroy w) ! i =
     (if i \<in> snd ` set (tokens (plugin w)) then Token_destroy (heap w ! i) else heap w ! i)"
  by (simp add: destroy_def ContextPlugin_destroy_def nth_heap_destroy_loop)

subsection \<open>Facts about single calls and call sequences\<close>

lemma exec_keeps_entry:
  assumes "map_of (tokens (plugin w)) u = Some t"
  shows "map_of (tokens (plugin (snd (exec w x)))) u = Some t"
proof (cases x)
  case (RegisterTokenUrl url oc)
  show ?thesis
  proof (cases "map_of (tokens (plugin w)) url")
    case None
    then have "u \<noteq> url" using assms by auto
    then show ?thesis
      using None assms RegisterTokenUrl register_fresh_rejected [OF None]
        register_fresh_resolved [OF None]
      by (cases oc) (simp_all add: split_beta update_conv')
  next
    case (Some t')
    then show ?thesis
      using assms RegisterTokenUrl by (simp add: register_cached)
  qed
next
  case (GetTokenFor url)
  then show ?thesis using assms by (simp add: getTokenFor_def split: option.splits)
next
  case Destroy
  then show ?thesis using assms by (simp add: plugin_destroy)
qed

lemma exec_register_result:
  assumes "exec w (RegisterTokenUrl u oc) = (TokenResult (Inr t), w1)"
  shows "map_of (tokens (plugin w1)) u = Some t"
proof (cases "map_of (tokens (plugin w)) u")
  case None
  show ?thesis
  proof (cases oc)
    case (Resolved v)
    then show ?thesis
      using assms register_fresh_resolved [OF None, of v]
      by (auto simp: split_beta update_conv')
  next
    case Rejected
    then show ?thesis
      using assms register_fresh_rejected [OF None]
      by (auto simp: split_beta)
  qed
next
  case (Some t')
  then show ?thesis
    using assms by (simp add: register_cached)
qed

lemma exec_no_new_entry:
  assumes "map_of (tokens (plugin w)) u = None"
    and "\<forall>oc t. (x, fst (exec w x)) \<noteq> (RegisterTokenUrl u oc, TokenResult (Inr t))"
  shows "map_of (tokens (plugin (snd (exec w x)))) u = None"
proof (cases x)
  case (RegisterTokenUrl url oc)
  show ?thesis
  proof (cases "map_of (tokens (plugin w)) url")
    case None
    show ?thesis
    proof (cases oc)
      case (Resolved v)
      then have "url \<noteq> u"
        using assms(2) RegisterTokenUrl register_fresh_resolved [OF None, of v]
        by (auto simp: split_beta)
      then show ?thesis
        using Resolved assms(1) RegisterTokenUrl register_fresh_resolved [OF None, of v]
        by (simp add: split_beta update_conv')
    next
      case Rejected
      then show ?thesis
        using assms(1) RegisterTokenUrl register_fresh_rejected [OF None]
        by (simp add: split_beta)
    qed
  next
    case (Some t')
    then show ?thesis
      using assms(1) RegisterTokenUrl by (simp add: register_cached)
  qed
next
  case (GetTokenFor url)
  then show ?thesis using assms(1) by (simp add: getTokenFor_def split: option.splits)
next
  case Destroy
  then show ?thesis using assms(1) by (simp add: plugin_destroy)
qed

lemma fst_run_Cons:
  "fst (run w (x # xs)) = (x, fst (exec w x)) # fst (run (snd (exec w x)) xs)"
  by (simp add: split_beta)

lemma snd_run_Cons: "snd (run w (x # xs)) = snd (run (snd (exec w x)) xs)"
  by (simp add: split_beta)

lemma run_keeps_entry:
  "map_of (tokens (plugin w)) u = Some t \<Longrightarrow>
   map_of (tokens (plugin (snd (run w ops)))) u = Some t"
proof (induction ops arbitrary: w)
  case Nil
  then show ?case by simp
next
  case (Cons x xs)
  from Cons.IH [OF exec_keeps_entry [OF Cons.prems, of x]]
  show ?case by (simp only: snd_run_Cons)
qed

lemma run_register_result:
  "(RegisterTokenUrl u oc, TokenResult (Inr t)) \<in> set (fst (run w ops)) \<Longrightarrow>
   map_of (tokens (plugin (snd (run w ops)))) u = Some t"
proof (induction ops arbitrary: w)
  case Nil
  then show ?case by simp
next
  case (Cons x xs)
  from Cons.prems
  have "(RegisterTokenUrl u oc, TokenResult (Inr t)) = (x, fst (exec w x)) \<or>
        (RegisterTokenUrl u oc, TokenResult (Inr t)) \<in> set (fst (run (snd (exec w x)) xs))"
    by (simp only: fst_run_Cons set_simps insert_iff)
  then show ?case
  proof
    assume "(RegisterTokenUrl u oc, TokenResult (Inr t)) = (x, fst (exec w x))"
    then have "exec w (RegisterTokenUrl u oc) = (TokenResult (Inr t), snd (exec w x))"
      by (metis prod.collapse prod.inject)
    from run_keeps_entry [OF exec_register_result [OF this], of xs]
    show ?thesis by (simp only: snd_run_Cons)
  next
    assume "(RegisterTokenUrl u oc, TokenResult (Inr t)) \<in> set (fst (run (snd (exec w x)) xs))"
    from Cons.IH [OF this] show ?thesis by (simp only: snd_run_Cons)
  qed
qed

lemma run_no_new_entry:
  "map_of (tokens (plugin w)) u = None \<Longrightarrow>
   \<forall>oc t. (RegisterTokenUrl u oc, TokenResult (Inr t)) \<notin> set (fst (run w ops)) \<Longrightarrow>
   map_of (tokens (plugin (snd (run w ops)))) u = None"
proof (induction ops arbitrary: w)
  case Nil
  then show ?case by simp
next
  case (Cons x xs)
  have mem: "\<forall>oc t. (RegisterTokenUrl u oc, TokenResult (Inr t)) \<notin>
               insert (x, fst (exec w x)) (set (fst (run (snd (exec w x)) xs)))"
    using Cons.prems(2) unfolding fst_run_Cons list.set .
  have a: "\<forall>oc t. (x, fst (exec w x)) \<noteq> (RegisterTokenUrl u oc, TokenResult (Inr t))"
    using mem by (metis insertI1)
  have b: "\<forall>oc t. (RegisterTokenUrl u oc, TokenResult (Inr t)) \<notin> set (fst (run (snd (exec w x)) xs))"
    using mem by (metis insertI2)
  from Cons.IH [OF exec_no_new_entry [OF Cons.prems(1) a] b]
  show ?case by (simp only: snd_run_Cons)
qed

lemma update_new_key: "map_of m k = None \<Longrightarrow> AList.update k v m = m @ [(k, v)]"
  by (induction m) (auto split: if_splits)

lemma init_newWorld_tokens:
  assumes "init newWorld config oc = (r0, w0)"
  shows "map_of (tokens (plugin w0)) u =
           (if r0 = Inr () \<and> tokenUrl (plugin w0) = Some u then token (plugin w0) else None)"
proof -
  have "w0 = snd (init newWorld config oc)" "r0 = fst (init newWorld config oc)"
    using assms by simp_all
  then show ?thesis
    by (cases oc)
      (auto simp: init_def init_call_def init_resume_def newWorld_def newCloudServices_def assignOptions_def emptyOptions_def
        createToken_def Token_init_call_def set_token_def plugin_onToken Let_def
        split: option.splits)
qed

lemma wellformed_started: "wellformed (started config oc)"
  by (cases oc)
    (auto simp: started_def wellformed_def init_def init_call_def init_resume_def newWorld_def newCloudServices_def
      assignOptions_def emptyOptions_def createToken_def Token_init_call_def set_token_def
      plugin_onToken length_heap_onToken Let_def split: option.splits)

lemma wellformed_exec:
  assumes "wellformed w"
  shows "wellformed (snd (exec w x))"
proof (cases x)
  case (RegisterTokenUrl url oc)
  show ?thesis
  proof (cases "map_of (tokens (plugin w)) url")
    case None
    show ?thesis
    proof (cases oc)
      case (Resolved v)
      show ?thesis
        using assms RegisterTokenUrl Resolved register_fresh_resolved [OF None, of v]
        by (auto simp: wellformed_def split_beta update_new_key [OF None] split: option.splits)
    next
      case Rejected
      show ?thesis
        using assms RegisterTokenUrl Rejected register_fresh_rejected [OF None]
        by (auto simp: wellformed_def split_beta split: option.splits)
    qed
  next
    case (Some t)
    then show ?thesis
      using assms RegisterTokenUrl by (simp add: register_cached)
  qed
next
  case (GetTokenFor url)
  then show ?thesis using assms by (simp add: getTokenFor_def split: option.splits)
next
  case Destroy
  then show ?thesis
    using assms
    by (auto simp: wellformed_def plugin_destroy length_heap_destroy split: option.splits)
qed

lemma wellformed_run: "wellformed w \<Longrightarrow> wellformed (snd (run w ops))"
proof (induction ops arbitrary: w)
  case Nil
  then show ?case by simp
next
  case (Cons x xs)
  from Cons.IH [OF wellformed_exec [OF Cons.prems, of x]]
  show ?case by (simp only: snd_run_Cons)
qed

lemma distinct_values_keys:
  assumes "distinct (map snd m)" and "map_of m k1 = Some r" and "map_of m k2 = Some r"
  shows "k1 = k2"
proof -
  have "(k1, r) \<in> set m" "(k2, r) \<in> set m"
    using assms(2,3) by (simp_all add: map_of_SomeD)
  moreover have "inj_on snd (set m)"
    using assms(1) by (simp add: distinct_map)
  ultimately show ?thesis
    using inj_onD [of snd "set m" "(k1, r)" "(k2, r)"] by simp
qed

lemmas model_defs =
  started_def init_def init_call_def init_resume_def newWorld_def newCloudServices_def emptyOptions_def assignOptions_def
  registerTokenUrl_def registerTokenUrl_call_def registerTokenUrl_resume_def has_def
  getTokenFor_def createToken_def Token_init_call_def Token_destroy_call_def onToken_def
  Token_new_def Token_init_def Token_init_settle_def Token_destroy_def set_token_def
  destroy_def ContextPlugin_destroy_def Let_def

subsection \<open>Calls that do not overlap\<close>

text \<open>
  What holds when \<^verbatim>\<open>init\<close> runs to its end before anything else and every later call
  finishes before the next one starts (\<open>started\<close>, \<open>run\<close>). Lookup throws exactly for the
  identities that no registration and no primary path resolved, and returns the instance
  those resolved to.
\<close>

lemma sequential_lookup:
  assumes "init newWorld config oc0 = (r0, w0)" and "run w0 ops = (log, w)"
  shows "(fst (getTokenFor w u) = Inl TokenNotRegistered \<longleftrightarrow>
            \<not> ((\<exists>oc t. (RegisterTokenUrl u oc, TokenResult (Inr t)) \<in> set log) \<or>
               (r0 = Inr () \<and> tokenUrl (plugin w0) = Some u \<and> token (plugin w0) \<noteq> None))) \<and>
         ((RegisterTokenUrl u oc, TokenResult (Inr t)) \<in> set log \<longrightarrow>
            fst (getTokenFor w u) = Inr t) \<and>
         (r0 = Inr () \<and> tokenUrl (plugin w0) = Some u \<and> token (plugin w0) = Some p \<longrightarrow>
            fst (getTokenFor w u) = Inr p)"
proof -
  have log: "log = fst (run w0 ops)" and w: "w = snd (run w0 ops)"
    using assms(2) by simp_all
  have get: "\<And>t. map_of (tokens (plugin w)) u = Some t \<Longrightarrow> fst (getTokenFor w u) = Inr t"
    by (simp add: getTokenFor_def)
  have reg: "fst (getTokenFor w u) = Inr t"
    if "(RegisterTokenUrl u oc, TokenResult (Inr t)) \<in> set log" for oc t
    using run_register_result [of u oc t w0 ops] that get unfolding log w by blast
  have prim: "fst (getTokenFor w u) = Inr p"
    if "r0 = Inr ()" "tokenUrl (plugin w0) = Some u" "token (plugin w0) = Some p" for p
  proof -
    have "map_of (tokens (plugin w0)) u = Some p"
      using init_newWorld_tokens [OF assms(1), of u] that by simp
    from run_keeps_entry [OF this, of ops] show ?thesis
      using get unfolding w by blast
  qed
  have none: "fst (getTokenFor w u) = Inl TokenNotRegistered"
    if a: "\<forall>oc t. (RegisterTokenUrl u oc, TokenResult (Inr t)) \<notin> set log"
      and b: "\<not> (r0 = Inr () \<and> tokenUrl (plugin w0) = Some u \<and> token (plugin w0) \<noteq> None)"
  proof -
    have "map_of (tokens (plugin w0)) u = None"
      using init_newWorld_tokens [OF assms(1), of u] b by auto
    from run_no_new_entry [OF this, of ops] a
    have "map_of (tokens (plugin w)) u = None"
      unfolding log w by blast
    then show ?thesis by (simp add: getTokenFor_def)
  qed
  show ?thesis
  proof (intro conjI impI iffI)
    assume "fst (getTokenFor w u) = Inl TokenNotRegistered"
    then show "\<not> ((\<exists>oc t. (RegisterTokenUrl u oc, TokenResult (Inr t)) \<in> set log) \<or>
               (r0 = Inr () \<and> tokenUrl (plugin w0) = Some u \<and> token (plugin w0) \<noteq> None))"
      using reg prim by fastforce
  next
    assume "\<not> ((\<exists>oc t. (RegisterTokenUrl u oc, TokenResult (Inr t)) \<in> set log) \<or>
               (r0 = Inr () \<and> tokenUrl (plugin w0) = Some u \<and> token (plugin w0) \<noteq> None))"
    then show "fst (getTokenFor w u) = Inl TokenNotRegistered"
      using none by blast
  next
    assume "(RegisterTokenUrl u oc, TokenResult (Inr t)) \<in> set log"
    then show "fst (getTokenFor w u) = Inr t" by (rule reg)
  next
    assume "r0 = Inr () \<and> tokenUrl (plugin w0) = Some u \<and> token (plugin w0) = Some p"
    then show "fst (getTokenFor w u) = Inr p" using prim by blast
  qed
qed

text \<open>Under the same condition the primary token is a value of the map, hence one of the
  tokens that \<^verbatim>\<open>destroy\<close> reaches.\<close>

lemma sequential_destroy:
  assumes "run (started config oc) ops = (log, w)"
  shows "calls (destroy w) = calls w @ map TokenDestroy (map snd (tokens (plugin w))) \<and>
         (token (plugin w) = Some p \<longrightarrow> p \<in> set (map snd (tokens (plugin w))))"
proof -
  have "w = snd (run (started config oc) ops)"
    using assms by simp
  then have "wellformed w"
    using wellformed_run [OF wellformed_started] by simp
  then show ?thesis
    by (auto simp: calls_destroy wellformed_def split: option.splits)
qed

text \<open>Under the same condition equal URL strings share one token, different provider
  references get different tokens, and a registered identity is served from the map.\<close>

lemma sequential_identity:
  assumes "run (started config oc0) ops = (log, w)"
  shows "((RegisterTokenUrl (UrlString s1) o1, TokenResult (Inr t1)) \<in> set log \<and>
          (RegisterTokenUrl (UrlString s2) o2, TokenResult (Inr t2)) \<in> set log \<and>
          s1 = s2 \<longrightarrow> t1 = t2) \<and>
         ((RegisterTokenUrl (ProviderFn f1) o3, TokenResult (Inr t3)) \<in> set log \<and>
          (RegisterTokenUrl (ProviderFn f2) o4, TokenResult (Inr t4)) \<in> set log \<and>
          f1 \<noteq> f2 \<longrightarrow> t3 \<noteq> t4) \<and>
         (has w u \<longrightarrow>
            registerTokenUrl w u oc = (fst (getTokenFor w u), w) \<and>
            fst (getTokenFor w u) \<noteq> Inl TokenNotRegistered)"
proof -
  have log: "log = fst (run (started config oc0) ops)"
    and w: "w = snd (run (started config oc0) ops)"
    using assms by simp_all
  have wf: "wellformed w"
    using wellformed_run [OF wellformed_started] w by simp
  have reg: "map_of (tokens (plugin w)) k = Some t"
    if "(RegisterTokenUrl k oc', TokenResult (Inr t)) \<in> set log" for k oc' t
    using run_register_result [of k oc' t "started config oc0" ops] that unfolding log w by blast
  have a: "t1 = t2"
    if "(RegisterTokenUrl (UrlString s1) o1, TokenResult (Inr t1)) \<in> set log"
      "(RegisterTokenUrl (UrlString s2) o2, TokenResult (Inr t2)) \<in> set log" "s1 = s2"
    using reg [OF that(1)] reg [OF that(2)] that(3) by simp
  have b: "t3 \<noteq> t4"
    if "(RegisterTokenUrl (ProviderFn f1) o3, TokenResult (Inr t3)) \<in> set log"
      "(RegisterTokenUrl (ProviderFn f2) o4, TokenResult (Inr t4)) \<in> set log" "f1 \<noteq> f2"
  proof
    assume "t3 = t4"
    then have "ProviderFn f1 = ProviderFn f2"
      using distinct_values_keys [of "tokens (plugin w)" "ProviderFn f1" t3 "ProviderFn f2"]
        reg [OF that(1)] reg [OF that(2)] wf
      by (simp add: wellformed_def)
    then show False using that(3) by simp
  qed
  have c: "registerTokenUrl w u oc = (fst (getTokenFor w u), w) \<and>
           fst (getTokenFor w u) \<noteq> Inl TokenNotRegistered" if h: "has w u"
  proof -
    obtain t where "map_of (tokens (plugin w)) u = Some t"
      using h by (auto simp: has_def)
    then show ?thesis
      by (simp add: register_cached getTokenFor_def)
  qed
  show ?thesis using a b c by blast
qed

subsection \<open>Two overlapping registrations of one token URL\<close>

text \<open>
  C1. The claim: a second \<^verbatim>\<open>registerTokenUrl( u )\<close> issued while the first one is still
  awaiting its \<^verbatim>\<open>init()\<close> resolves to the same Token instance, with a single \<^verbatim>\<open>init()\<close>.
  The code tests \<^verbatim>\<open>this._tokens.has( tokenUrl )\<close> before the \<^verbatim>\<open>await\<close> and writes the map
  after it, so the second call finds no key and creates a token of its own. Evaluated on
  one URL: both calls suspend on different tokens (references 0 and 1), both resolve, to
  different instances, \<^verbatim>\<open>init()\<close> is invoked twice, the map keeps the token of the call
  that resumed last, and \<^verbatim>\<open>destroy\<close> reaches that token only, leaving token 0 alive.
\<close>

theorem registerTokenUrl_overlapping_calls:
  "let u = UrlString ''https://ex/token'';
       w0 = started None Rejected;
       (s1, w1) = registerTokenUrl_call w0 u;
       (s2, w2) = registerTokenUrl_call w1 u;
       (r1, w3) = registerTokenUrl_resume w2 u 0 (Resolved ''tok-1'');
       (r2, w4) = registerTokenUrl_resume w3 u 1 (Resolved ''tok-2'')
   in s1 = Await 0 \<and> s2 = Await 1 \<and> r1 = Inr 0 \<and> r2 = Inr 1 \<and>
      calls w4 = [TokenInit 0, TokenInit 1] \<and>
      tokens (plugin w4) = [(u, 1)] \<and>
      calls (destroy w4) = [TokenInit 0, TokenInit 1, TokenDestroy 1]"
  by (simp add: model_defs)

subsection \<open>Lookup after destroy\<close>

text \<open>
  C2, as stated, fails: \<^verbatim>\<open>destroy\<close> calls \<^verbatim>\<open>destroy()\<close> on the tokens and removes nothing
  from the map. After registering two different URLs and destroying the plugin,
  \<^verbatim>\<open>getTokenFor\<close> returns tokens 0 and 1 again; it does not throw
  \<^verbatim>\<open>cloudservices-token-not-registered\<close>.
\<close>

theorem destroy_unregisters_counterexample:
  "map snd (fst (run (started None Rejected)
     [RegisterTokenUrl (UrlString ''https://ex/a'') (Resolved ''tok-a''),
      RegisterTokenUrl (UrlString ''https://ex/b'') (Resolved ''tok-b''),
      Destroy,
      GetTokenFor (UrlString ''https://ex/a''),
      GetTokenFor (UrlString ''https://ex/b'')])) =
     [TokenResult (Inr 0), TokenResult (Inr 1), Void, TokenResult (Inr 0), TokenResult (Inr 1)] \<and>
   fst (getTokenFor (snd (run (started None Rejected)
     [RegisterTokenUrl (UrlString ''https://ex/a'') (Resolved ''tok-a''),
      RegisterTokenUrl (UrlString ''https://ex/b'') (Resolved ''tok-b''),
      Destroy])) (UrlString ''https://ex/a'')) \<noteq> Inl TokenNotRegistered \<and>
   fst (getTokenFor (snd (run (started None Rejected)
     [RegisterTokenUrl (UrlString ''https://ex/a'') (Resolved ''tok-a''),
      RegisterTokenUrl (UrlString ''https://ex/b'') (Resolved ''tok-b''),
      Destroy])) (UrlString ''https://ex/b'')) \<noteq> Inl TokenNotRegistered"
  by (simp add: model_defs)

text \<open>
  C2, amended. For two different identities registered one after the other, both
  registrations resolving, and the plugin then destroyed: \<^verbatim>\<open>destroy()\<close> has been invoked on
  both tokens, and \<^verbatim>\<open>getTokenFor\<close> of either identity still returns the token its
  registration resolved to.
\<close>

theorem destroy_keeps_entries:
  assumes "u1 \<noteq> u2"
    and "registerTokenUrl w u1 (Resolved v1) = (Inr t1, w1)"
    and "registerTokenUrl w1 u2 (Resolved v2) = (Inr t2, w2)"
  shows "fst (getTokenFor (destroy w2) u1) = Inr t1 \<and>
         fst (getTokenFor (destroy w2) u2) = Inr t2 \<and>
         TokenDestroy t1 \<in> set (calls (destroy w2)) \<and>
         TokenDestroy t2 \<in> set (calls (destroy w2))"
proof -
  have "exec w (RegisterTokenUrl u1 (Resolved v1)) = (TokenResult (Inr t1), w1)"
    using assms(2) by simp
  then have m1: "map_of (tokens (plugin w1)) u1 = Some t1"
    by (rule exec_register_result)
  have e2: "exec w1 (RegisterTokenUrl u2 (Resolved v2)) = (TokenResult (Inr t2), w2)"
    using assms(3) by simp
  then have m2: "map_of (tokens (plugin w2)) u2 = Some t2"
    by (rule exec_register_result)
  have m1': "map_of (tokens (plugin w2)) u1 = Some t1"
    using exec_keeps_entry [OF m1, of "RegisterTokenUrl u2 (Resolved v2)"] e2 by simp
  have d1: "TokenDestroy t1 \<in> set (calls (destroy w2))"
    using map_of_SomeD [OF m1'] by (force simp: calls_destroy)
  have d2: "TokenDestroy t2 \<in> set (calls (destroy w2))"
    using map_of_SomeD [OF m2] by (force simp: calls_destroy)
  show ?thesis
    using m1' m2 d1 d2 by (simp add: getTokenFor_def plugin_destroy)
qed

theorem destroy_keeps_entries_witness:
  "UrlString ''https://ex/a'' \<noteq> UrlString ''https://ex/b'' \<and>
   fst (registerTokenUrl (started None Rejected) (UrlString ''https://ex/a'') (Resolved ''tok-a'')) = Inr 0 \<and>
   fst (registerTokenUrl
          (snd (registerTokenUrl (started None Rejected) (UrlString ''https://ex/a'') (Resolved ''tok-a'')))
          (UrlString ''https://ex/b'') (Resolved ''tok-b'')) = Inr 1 \<and>
   fst (getTokenFor (destroy (snd (registerTokenUrl
          (snd (registerTokenUrl (started None Rejected) (UrlString ''https://ex/a'') (Resolved ''tok-a'')))
          (UrlString ''https://ex/b'') (Resolved ''tok-b'')))) (UrlString ''https://ex/a'')) = Inr 0 \<and>
   fst (getTokenFor (destroy (snd (registerTokenUrl
          (snd (registerTokenUrl (started None Rejected) (UrlString ''https://ex/a'') (Resolved ''tok-a'')))
          (UrlString ''https://ex/b'') (Resolved ''tok-b'')))) (UrlString ''https://ex/b'')) = Inr 1"
proof -
  let ?a = "UrlString ''https://ex/a''" and ?b = "UrlString ''https://ex/b''"
  let ?w = "started None Rejected"
  let ?w1 = "snd (registerTokenUrl ?w ?a (Resolved ''tok-a''))"
  let ?w2 = "snd (registerTokenUrl ?w1 ?b (Resolved ''tok-b''))"
  have h1: "?a \<noteq> ?b" by simp
  have f1: "fst (registerTokenUrl ?w ?a (Resolved ''tok-a'')) = Inr 0"
    by (simp add: model_defs)
  have f2: "fst (registerTokenUrl ?w1 ?b (Resolved ''tok-b'')) = Inr 1"
    by (simp add: model_defs)
  have h2: "registerTokenUrl ?w ?a (Resolved ''tok-a'') = (Inr 0, ?w1)"
    using f1 by (simp add: prod_eq_iff)
  have h3: "registerTokenUrl ?w1 ?b (Resolved ''tok-b'') = (Inr 1, ?w2)"
    using f2 by (simp add: prod_eq_iff)
  show ?thesis
    using h1 f1 f2 destroy_keeps_entries [OF h1 h2 h3] by simp
qed

subsection \<open>Failed initialization\<close>

text \<open>
  C3. When the identity is not yet a key, so that \<^verbatim>\<open>registerTokenUrl\<close> creates a token and
  awaits its \<^verbatim>\<open>init()\<close>, and that promise rejects, then the call rejects, the plugin's
  members (the token map and the primary token among them) are what they were, and a
  following \<^verbatim>\<open>getTokenFor\<close> of that identity throws
  \<^verbatim>\<open>cloudservices-token-not-registered\<close>. The last conjunct says the same of the
  continuation alone: resumed with a rejection, in whatever world, it writes no member.
\<close>

theorem registerTokenUrl_rejected:
  assumes "\<not> has w url"
  shows "fst (registerTokenUrl w url Rejected) = Inl InitializationFailure \<and>
         plugin (snd (registerTokenUrl w url Rejected)) = plugin w \<and>
         fst (getTokenFor (snd (registerTokenUrl w url Rejected)) url) = Inl TokenNotRegistered \<and>
         plugin (snd (registerTokenUrl_resume w' url r Rejected)) = plugin w'"
  using assms register_fresh_rejected [of w url]
  by (simp add: has_def getTokenFor_def registerTokenUrl_resume_def plugin_onToken)

theorem registerTokenUrl_rejected_witness:
  "\<not> has newWorld (ProviderFn 7) \<and>
   fst (registerTokenUrl newWorld (ProviderFn 7) Rejected) = Inl InitializationFailure \<and>
   plugin (snd (registerTokenUrl newWorld (ProviderFn 7) Rejected)) = plugin newWorld \<and>
   fst (getTokenFor (snd (registerTokenUrl newWorld (ProviderFn 7) Rejected)) (ProviderFn 7)) =
     Inl TokenNotRegistered"
proof -
  have h: "\<not> has newWorld (ProviderFn 7)"
    by (simp add: has_def newWorld_def newCloudServices_def)
  show ?thesis
    using h registerTokenUrl_rejected [OF h, of newWorld 0] by simp
qed

subsection \<open>Lookup and the instance a registration resolved to\<close>

text \<open>
  C4. The claim: \<^verbatim>\<open>getTokenFor( u )\<close> throws exactly when \<open>u\<close> was never registered with
  success, and otherwise returns the instance that the successful registration resolved
  to. The second half fails where calls overlap. First evaluation, two
  \<^verbatim>\<open>registerTokenUrl\<close> calls of one provider function, the second started while the first
  awaits: the first promise resolves to token 0 and lookup returns token 0, then the second
  resolves to token 1 and from then on lookup returns token 1, which is not what the first
  registration resolved to. Second evaluation, a \<^verbatim>\<open>registerTokenUrl\<close> of the configured
  \<^verbatim>\<open>tokenUrl\<close> started while \<^verbatim>\<open>init\<close> awaits: \<^verbatim>\<open>init\<close> establishes token 0 as the primary
  token, and lookup of that URL ends up returning token 1.
\<close>

theorem getTokenFor_after_overlapping_calls:
  "(let u = ProviderFn 7;
        w0 = started None Rejected;
        (s1, w1) = registerTokenUrl_call w0 u;
        (s2, w2) = registerTokenUrl_call w1 u;
        (r1, w3) = registerTokenUrl_resume w2 u 0 (Resolved ''tok-1'');
        (r2, w4) = registerTokenUrl_resume w3 u 1 (Resolved ''tok-2'')
    in r1 = Inr 0 \<and> fst (getTokenFor w3 u) = Inr 0 \<and>
       r2 = Inr 1 \<and> fst (getTokenFor w4 u) = Inr 1) \<and>
   (let u = UrlString ''https://ex/token'';
        (s0, w1) = init_call newWorld (Some (emptyOptions\<lparr>tokenUrl := Some u\<rparr>));
        (s1, w2) = registerTokenUrl_call w1 u;
        (r0, w3) = init_resume w2 0 (Resolved ''tok-0'');
        (r1, w4) = registerTokenUrl_resume w3 u 1 (Resolved ''tok-1'')
    in r0 = Inr () \<and> token (plugin w3) = Some 0 \<and> fst (getTokenFor w3 u) = Inr 0 \<and>
       r1 = Inr 1 \<and> token (plugin w4) = Some 0 \<and> fst (getTokenFor w4 u) = Inr 1)"
  by (simp add: model_defs)

subsection \<open>Destroy and the primary token\<close>

text \<open>
  C5. The claim: \<^verbatim>\<open>destroy\<close> invokes \<^verbatim>\<open>destroy()\<close> on every token of the map, the primary
  token included. \<^verbatim>\<open>destroy\<close> loops over the values of the map and never reads
  \<^verbatim>\<open>this.token\<close>; the primary token is reached only as the map value that \<^verbatim>\<open>init\<close> stored.
  Evaluated with a \<^verbatim>\<open>registerTokenUrl\<close> of the configured \<^verbatim>\<open>tokenUrl\<close> started while
  \<^verbatim>\<open>init\<close> awaits: both suspend on tokens of their own (0 and 1), \<^verbatim>\<open>init\<close> resumes and
  stores token 0 as primary token and map value, the registration resumes and replaces the
  map value by token 1. \<^verbatim>\<open>destroy\<close> then invokes \<^verbatim>\<open>destroy()\<close> on token 1 only, and the
  primary token stays in state \<open>VALID\<close>.
\<close>

theorem destroy_misses_primary_token:
  "let u = UrlString ''https://ex/token'';
       (s0, w1) = init_call newWorld (Some (emptyOptions\<lparr>tokenUrl := Some u\<rparr>));
       (s1, w2) = registerTokenUrl_call w1 u;
       (r0, w3) = init_resume w2 0 (Resolved ''tok-0'');
       (r1, w4) = registerTokenUrl_resume w3 u 1 (Resolved ''tok-1'')
   in s0 = Await 0 \<and> s1 = Await 1 \<and> r0 = Inr () \<and> r1 = Inr 1 \<and>
      token (plugin w4) = Some 0 \<and>
      tokens (plugin w4) = [(u, 1)] \<and>
      calls (destroy w4) = [TokenInit 0, TokenInit 1, TokenDestroy 1] \<and>
      TokenDestroy 0 \<notin> set (calls (destroy w4)) \<and>
      map state (heap (destroy w4)) = [VALID, DESTROYED]"
  by (simp add: model_defs)

subsection \<open>Destroy twice\<close>

text \<open>
  C6. A second \<^verbatim>\<open>destroy\<close> leaves the plugin's members and every token object as the first
  one left them. \<^verbatim>\<open>destroy\<close> has no throwing path of its own, which the type of the model
  records. (The second call does invoke \<^verbatim>\<open>destroy()\<close> on each token again; that shows in
  \<open>calls\<close>, not in the state of the plugin or of the tokens.)
\<close>

theorem destroy_idempotent:
  "plugin (destroy (destroy w)) = plugin (destroy w) \<and>
   heap (destroy (destroy w)) = heap (destroy w)"
proof
  show "plugin (destroy (destroy w)) = plugin (destroy w)"
    by (simp add: plugin_destroy)
  show "heap (destroy (destroy w)) = heap (destroy w)"
  proof (rule nth_equalityI)
    show "length (heap (destroy (destroy w))) = length (heap (destroy w))"
      by (simp add: length_heap_destroy)
  next
    fix i assume "i < length (heap (destroy (destroy w)))"
    then have i: "i < length (heap w)" by (simp add: length_heap_destroy)
    then have i': "i < length (heap (destroy w))" by (simp add: length_heap_destroy)
    show "heap (destroy (destroy w)) ! i = heap (destroy w) ! i"
      using nth_heap_destroy [OF i'] nth_heap_destroy [OF i]
      by (simp add: plugin_destroy Token_destroy_idem)
  qed
qed

subsection \<open>Identity of token URLs\<close>

text \<open>
  C7. The claim: two \<^verbatim>\<open>registerTokenUrl\<close> calls with equal URL strings resolve to one
  shared token. Map keys are compared as the claim says, strings by value, but the
  comparison is made before the \<^verbatim>\<open>await\<close> only. Evaluated with two strings built
  separately and equal in value, the second call started while the first awaits: each call
  creates a token for that URL, and the two calls resolve to different instances.
\<close>

theorem equal_urls_overlapping_calls:
  "let u1 = UrlString ''https://ex/a'';
       u2 = UrlString (''https://ex/'' @ ''a'');
       w0 = started None Rejected;
       (s1, w1) = registerTokenUrl_call w0 u1;
       (s2, w2) = registerTokenUrl_call w1 u2;
       (r1, w3) = registerTokenUrl_resume w2 u1 0 (Resolved ''tok-1'');
       (r2, w4) = registerTokenUrl_resume w3 u2 1 (Resolved ''tok-2'')
   in u1 = u2 \<and> r1 = Inr 0 \<and> r2 = Inr 1 \<and> r1 \<noteq> r2 \<and>
      map endpointIdentity (heap w4) = [u1, u1] \<and>
      map tokenValue (heap w4) = [Some ''tok-1'', Some ''tok-2'']"
  by (simp add: model_defs)

subsection \<open>Initialization without a primary token URL\<close>

text \<open>
  C8. On a plugin whose \<^verbatim>\<open>tokenUrl\<close> member is still undefined, when the configuration
  supplies no token URL (no \<^verbatim>\<open>cloudServices\<close> entry, no \<^verbatim>\<open>tokenUrl\<close> in it, or the empty
  string, which \<^verbatim>\<open>!this.tokenUrl\<close> treats alike), \<^verbatim>\<open>init\<close> completes without an error,
  \<^verbatim>\<open>token\<close> is \<^verbatim>\<open>null\<close>, the token map has the entries it had, and no token is created
  or initialized.
\<close>

theorem init_without_tokenUrl:
  assumes "tokenUrl (plugin w) = None"
    and "falsy (case config of None \<Rightarrow> None | Some c \<Rightarrow> tokenUrl c)"
  shows "fst (init w config oc) = Inr () \<and>
         token (plugin (snd (init w config oc))) = None \<and>
         tokens (plugin (snd (init w config oc))) = tokens (plugin w) \<and>
         heap (snd (init w config oc)) = heap w \<and>
         calls (snd (init w config oc)) = calls w"
  using assms
  by (auto simp: init_def init_call_def assignOptions_def emptyOptions_def Let_def
      split: option.splits)

theorem init_without_tokenUrl_witness:
  "tokenUrl (plugin newWorld) = None \<and>
   falsy (case Some (emptyOptions\<lparr>uploadUrl := Some ''https://ex/upload''\<rparr>) of
            None \<Rightarrow> None | Some c \<Rightarrow> tokenUrl c) \<and>
   fst (init newWorld (Some (emptyOptions\<lparr>uploadUrl := Some ''https://ex/upload''\<rparr>))
          (Resolved ''tok-1'')) = Inr () \<and>
   token (plugin (snd (init newWorld
          (Some (emptyOptions\<lparr>uploadUrl := Some ''https://ex/upload''\<rparr>))
          (Resolved ''tok-1'')))) = None \<and>
   tokens (plugin (snd (init newWorld
          (Some (emptyOptions\<lparr>uploadUrl := Some ''https://ex/upload''\<rparr>))
          (Resolved ''tok-1'')))) = []"
proof -
  have h1: "tokenUrl (plugin newWorld) = None"
    by (simp add: newWorld_def newCloudServices_def)
  have h2: "falsy (case Some (emptyOptions\<lparr>uploadUrl := Some ''https://ex/upload''\<rparr>) of
                     None \<Rightarrow> None | Some c \<Rightarrow> tokenUrl c)"
    by (simp add: emptyOptions_def)
  have h3: "tokens (plugin newWorld) = []"
    by (simp add: newWorld_def newCloudServices_def)
  show ?thesis
    using h1 h2 h3 init_without_tokenUrl [OF h1 h2, of "Resolved ''tok-1''"] by simp
qed

subsection \<open>Lookup has no effect\<close>

text \<open>
  C9. \<^verbatim>\<open>getTokenFor\<close>, whether it returns a token or throws, leaves everything as it was:
  the plugin's members (token map, primary token), the token objects and the record of
  \<^verbatim>\<open>init()\<close> and \<^verbatim>\<open>destroy()\<close> invocations; so no token is created by a lookup.
\<close>

theorem getTokenFor_frame:
  "snd (getTokenFor w url) = w \<and> snd (exec w (GetTokenFor url)) = w"
  by (simp add: getTokenFor_def split: option.splits)

subsection \<open>A failed refresh\<close>

text \<open>
  C10. For a token in state \<open>VALID\<close> with value \<open>v\<close>, a refresh that is triggered and then
  fails surfaces no error, leaves the token in state \<open>VALID\<close> (it is not destroyed) and
  leaves its value \<open>v\<close>.
\<close>

theorem refresh_failure_keeps_value:
  assumes "state t = VALID" and "tokenValue t = Some v"
  shows "fst (Token_refresh_settle Rejected (Token_refresh t)) = None \<and>
         state (snd (Token_refresh_settle Rejected (Token_refresh t))) = VALID \<and>
         tokenValue (snd (Token_refresh_settle Rejected (Token_refresh t))) = Some v"
  using assms by (simp add: Token_refresh_settle_def Token_refresh_def)

theorem refresh_failure_keeps_value_witness:
  "state (Token_init_settle (Resolved ''tok-1'') (Token_init (Token_new (UrlString ''https://ex/token'')))) = VALID \<and>
   tokenValue (Token_init_settle (Resolved ''tok-1'') (Token_init (Token_new (UrlString ''https://ex/token'')))) = Some ''tok-1'' \<and>
   tokenValue (snd (Token_refresh_settle Rejected (Token_refresh
     (Token_init_settle (Resolved ''tok-1'') (Token_init (Token_new (UrlString ''https://ex/token''))))))) =
     Some ''tok-1''"
proof -
  have h1: "state (Token_init_settle (Resolved ''tok-1'')
              (Token_init (Token_new (UrlString ''https://ex/token'')))) = VALID"
    by (simp add: Token_init_settle_def Token_init_def Token_new_def)
  have h2: "tokenValue (Token_init_settle (Resolved ''tok-1'')
              (Token_init (Token_new (UrlString ''https://ex/token'')))) = Some ''tok-1''"
    by (simp add: Token_init_settle_def Token_init_def Token_new_def)
  show ?thesis
    using h1 h2 refresh_failure_keeps_value [OF h1 h2] by simp
qed

end
